theory Spec2Isabelle
  imports Main
begin

section \<open>Literals\<close>

text \<open>
  \<open>value_inference.h\<close> stores two \<open>Literal\<close>s in every \<open>OptionaLiteral\<close> and reads them
  through \<open>Literal::Get\<close>, \<open>Literal::IsAll\<close> and \<open>LiteralSlice\<close>. The class \<open>Literal\<close> is
  declared in \<open>literal.h\<close>, which is not part of the sources at hand, so the part of it
  the header uses is written down here.
\<close>

datatype PrimitiveType = PRED | S8 | S32 | S64 | U8 | U32

text \<open>One stored element: a \<open>bool\<close> of a \<open>PRED\<close> array or an integer of an integral array.\<close>

datatype Element = PredValue bool | IntValue int

text \<open>
  Modelled from the spec: the tensor storage (\<open>Literal\<close>), "assumed to support per-element
  typed access, broadcasting, and boolean masks". An array literal carries its element
  type, its dimensions and its elements in row-major order; a tuple literal carries its
  sub-literals, which a \<open>ShapeIndex\<close> selects.
\<close>

datatype Literal = Array PrimitiveType "nat list" "Element list" | Tuple "Literal list"

datatype CheckFailure = CheckFailure

text \<open>Whether an element is of the native type that belongs to a primitive type.\<close>

fun has_type :: "PrimitiveType \<Rightarrow> Element \<Rightarrow> bool" where
  "has_type PRED (PredValue b) = True"
| "has_type PRED (IntValue i) = False"
| "has_type ty (PredValue b) = False"
| "has_type ty (IntValue i) = True"

text \<open>
  Row-major position of a multi-index in an array of the given dimensions; \<open>None\<close> when
  the index has the wrong rank or leaves the array.
\<close>

fun linear_index :: "nat list \<Rightarrow> int list \<Rightarrow> nat option" where
  "linear_index [] [] = Some 0"
| "linear_index (d # ds) (i # is) =
     (if 0 \<le> i \<and> i < int d
      then (case linear_index ds is of
              None \<Rightarrow> None
            | Some r \<Rightarrow> Some (nat i * prod_list ds + r))
      else None)"
| "linear_index [] (i # is) = None"
| "linear_index (d # ds) [] = None"

text \<open>The sub-literal a \<open>ShapeIndex\<close> selects; \<open>None\<close> when the index leaves the tuple tree.\<close>

fun subliteral :: "Literal \<Rightarrow> int list \<Rightarrow> Literal option" where
  "subliteral l [] = Some l"
| "subliteral (Tuple ls) (i # is) =
     (if 0 \<le> i \<and> nat i < length ls then subliteral (ls ! nat i) is else None)"
| "subliteral (Array ty ds es) (i # is) = None"

text \<open>
  Modelled from the spec: \<open>Literal::Get<NativeT>(element_index, shape_index)\<close>, typed
  access to one element, which "fails (precondition violation) if the index is out of
  bounds or T mismatches the stored element type". The requested native type is given
  by its primitive type.
\<close>

definition Literal_Get ::
  "PrimitiveType \<Rightarrow> Literal \<Rightarrow> int list \<Rightarrow> int list \<Rightarrow> CheckFailure + Element" where
  "Literal_Get ty l element_index shape_index =
     (case subliteral l shape_index of
        None \<Rightarrow> Inl CheckFailure
      | Some (Tuple ls) \<Rightarrow> Inl CheckFailure
      | Some (Array ty' ds es) \<Rightarrow>
          (if ty' \<noteq> ty then Inl CheckFailure
           else (case linear_index ds element_index of
                   None \<Rightarrow> Inl CheckFailure
                 | Some k \<Rightarrow>
                     (if k < length es \<and> has_type ty (es ! k) then Inr (es ! k)
                      else Inl CheckFailure))))"

text \<open>Whether a stored element of the given type equals the small integer \<open>v\<close>.\<close>

fun element_equals :: "PrimitiveType \<Rightarrow> Element \<Rightarrow> int \<Rightarrow> bool" where
  "element_equals PRED (PredValue b) v = ((v = 0 \<and> \<not> b) \<or> (v = 1 \<and> b))"
| "element_equals PRED (IntValue i) v = False"
| "element_equals ty (PredValue b) v = False"
| "element_equals ty (IntValue i) v = (i = v)"

text \<open>
  Modelled from the spec: \<open>Literal::IsAll(value)\<close>, which for a mask is "true iff every
  mask element is false"; in general, whether every element of every array of the
  literal equals \<open>value\<close>.
\<close>

fun IsAll :: "Literal \<Rightarrow> int \<Rightarrow> bool" where
  "IsAll (Array ty ds es) v = list_all (\<lambda>e. element_equals ty e v) es"
| "IsAll (Tuple ls) v = list_all (\<lambda>l. IsAll l v) ls"

text \<open>All elements of a literal, array after array.\<close>

fun elements :: "Literal \<Rightarrow> Element list" where
  "elements (Array ty ds es) = es"
| "elements (Tuple ls) = concat (map elements ls)"

text \<open>A boolean tensor: every array in it is a \<open>PRED\<close> array holding \<open>bool\<close>s.\<close>

fun is_mask :: "Literal \<Rightarrow> bool" where
  "is_mask (Array ty ds es) = (ty = PRED \<and> list_all (has_type PRED) es)"
| "is_mask (Tuple ls) = list_all is_mask ls"

text \<open>\<open>LiteralSlice\<close>: a read-only view of a literal.\<close>

datatype LiteralSlice = LiteralSlice Literal

section \<open>OptionaLiteral\<close>

record OptionaLiteral =
  ol_value :: Literal
  ol_mask :: Literal

text \<open>
  \<open>OptionaLiteral::Get<NativeT>\<close>: the mask is read first, as a \<open>bool\<close>; a failed check
  there aborts the call, a true mask gives \<open>nullopt\<close>, a false one reads the value.
\<close>

definition Get ::
  "PrimitiveType \<Rightarrow> OptionaLiteral \<Rightarrow> int list \<Rightarrow> int list \<Rightarrow> CheckFailure + Element option" where
  "Get ty ol element_index shape_index =
     (case Literal_Get PRED (ol_mask ol) element_index shape_index of
        Inl f \<Rightarrow> Inl f
      | Inr (IntValue i) \<Rightarrow> Inl CheckFailure
      | Inr (PredValue m) \<Rightarrow>
          (if m then Inr None
           else (case Literal_Get ty (ol_value ol) element_index shape_index of
                   Inl f \<Rightarrow> Inl f
                 | Inr v \<Rightarrow> Inr (Some v))))"

definition AllValid :: "OptionaLiteral \<Rightarrow> bool" where
  "AllValid ol = IsAll (ol_mask ol) 0"

definition GetValue :: "OptionaLiteral \<Rightarrow> LiteralSlice option" where
  "GetValue ol = (if \<not> AllValid ol then None else Some (LiteralSlice (ol_value ol)))"

section \<open>ValueInference\<close>

datatype ValueInferenceMode = kValue | kUpperBound | kLowerBound

text \<open>An \<open>XlaOp\<close> is read only through \<open>op.handle()\<close>, an \<open>int64\<close>.\<close>

datatype XlaOp = XlaOp (handle: int)

datatype Status = Status string


record 'e ValueInference =
  vi_builder :: nat
  vi_evaluator :: 'e


text \<open>
  The two private member functions the inline public functions forward to are declared
  in the header and defined out of line; they are parameters here. Each is a
  non-const member function, so it receives the object and returns it with its result.
\<close>

record 'e private_members =
  AnalyzeOptionalConstant_impl ::
    "'e ValueInference \<Rightarrow> int \<Rightarrow> ValueInferenceMode \<Rightarrow> (Status + OptionaLiteral) \<times> 'e ValueInference"
  AnalyzeIsDynamic_impl ::
    "'e ValueInference \<Rightarrow> int \<Rightarrow> ValueInferenceMode \<Rightarrow> (Status + Literal) \<times> 'e ValueInference"

text \<open>\<open>StatusOr<Literal> AnalyzeIsDynamic(XlaOp op)\<close>.\<close>

definition AnalyzeIsDynamic ::
  "'e private_members \<Rightarrow> 'e ValueInference \<Rightarrow> XlaOp \<Rightarrow> (Status + Literal) \<times> 'e ValueInference" where
  "AnalyzeIsDynamic P this op = AnalyzeIsDynamic_impl P this (handle op) kValue"

text \<open>\<open>StatusOr<OptionaLiteral> AnalyzeConstant(XlaOp op, ValueInferenceMode mode)\<close>.\<close>

definition AnalyzeConstant ::
  "'e private_members \<Rightarrow> 'e ValueInference \<Rightarrow> XlaOp \<Rightarrow> ValueInferenceMode
     \<Rightarrow> (Status + OptionaLiteral) \<times> 'e ValueInference" where
  "AnalyzeConstant P this op mode = AnalyzeOptionalConstant_impl P this (handle op) mode"

text \<open>
  The computation behind a public query: which private member function it calls, on
  which handle and in which mode.
\<close>

datatype private_call =
  Call_AnalyzeOptionalConstant int ValueInferenceMode
| Call_AnalyzeIsDynamic int ValueInferenceMode

fun call_mode :: "private_call \<Rightarrow> ValueInferenceMode" where
  "call_mode (Call_AnalyzeOptionalConstant h m) = m"
| "call_mode (Call_AnalyzeIsDynamic h m) = m"

definition AnalyzeIsDynamic_call :: "XlaOp \<Rightarrow> private_call" where
  "AnalyzeIsDynamic_call op = Call_AnalyzeIsDynamic (handle op) kValue"

definition AnalyzeConstant_call :: "XlaOp \<Rightarrow> ValueInferenceMode \<Rightarrow> private_call" where
  "AnalyzeConstant_call op mode = Call_AnalyzeOptionalConstant (handle op) mode"

text \<open>
  Running a private call: the result is tagged with its C++ type, \<open>Literal\<close> or
  \<open>OptionaLiteral\<close>.
\<close>

fun run_call ::
  "'e private_members \<Rightarrow> 'e ValueInference \<Rightarrow> private_call
     \<Rightarrow> (Status + (Literal + OptionaLiteral)) \<times> 'e ValueInference" where
  "run_call P this (Call_AnalyzeIsDynamic h m) =
     (case AnalyzeIsDynamic_impl P this h m of (r, this') \<Rightarrow> (map_sum id Inl r, this'))"
| "run_call P this (Call_AnalyzeOptionalConstant h m) =
     (case AnalyzeOptionalConstant_impl P this h m of (r, this') \<Rightarrow> (map_sum id Inr r, this'))"







section \<open>The analysis\<close>

text \<open>
  The private member functions (\<open>AnalyzeUpperBound\<close>, \<open>AnalyzeLowerBound\<close>,
  \<open>AnalyzeIsDynamic(handle, mode)\<close>, \<open>AnalyzeConstantValue\<close>) are only declared in the
  header. The walk they implement is written here from section 4.2 of the
  specification, over integral tensors.
\<close>

text \<open>
  Modelled from the spec: the error taxonomy of section 7. An evaluation error carries
  the status the evaluation service failed with.
\<close>

datatype AnalysisError = StructuralError | UnsupportedOpcodeError | EvaluationError Status

text \<open>
  Modelled from the spec: the opcodes the internal algorithm names. \<open>kConstant\<close> carries
  its literal; \<open>kParameter\<close> and \<open>kMarkedDynamic\<close> are the nodes "explicitly flagged as
  runtime-determined"; \<open>kAdd\<close>, \<open>kMultiply\<close>, \<open>kMaximum\<close> and \<open>kMinimum\<close> are the
  arithmetic opcodes with an analytic bound rule; \<open>kOther\<close> stands for every opcode
  "without a known monotonic/bound rule".
\<close>

datatype HloOpcode =
  kConstant Literal | kParameter | kMarkedDynamic
| kAdd | kMultiply | kMaximum | kMinimum | kOther

text \<open>
  Modelled from the spec: what the graph access interface returns for a handle, "its
  opcode, its shape/type metadata, any attached static bound ..., and its ordered
  operand handles". A static bound is a pair (lower, upper).
\<close>

record Node =
  opcode :: HloOpcode
  element_type :: PrimitiveType
  dimensions :: "nat list"
  operands :: "int list"
  static_bound :: "(int \<times> int) option"

type_synonym Graph = "(int \<times> Node) list"

text \<open>
  Modelled from the spec: "the type's representable max/min", for the element types of
  this development.
\<close>

fun type_max :: "PrimitiveType \<Rightarrow> int" where
  "type_max PRED = 1"
| "type_max S8 = 127"
| "type_max S32 = 2147483647"
| "type_max S64 = 9223372036854775807"
| "type_max U8 = 255"
| "type_max U32 = 4294967295"

fun type_min :: "PrimitiveType \<Rightarrow> int" where
  "type_min PRED = 0"
| "type_min S8 = - 128"
| "type_min S32 = - 2147483648"
| "type_min S64 = - 9223372036854775808"
| "type_min U8 = 0"
| "type_min U32 = 0"

text \<open>The stored element for an integer of the type (a \<open>bool\<close> for \<open>PRED\<close>).\<close>

definition make_element :: "PrimitiveType \<Rightarrow> int \<Rightarrow> Element" where
  "make_element ty x = (if ty = PRED then PredValue (x \<noteq> 0) else IntValue x)"

text \<open>
  Modelled from the spec: an array with every element the same, for "mask = all-true",
  "mask = all-false" and a bound that is one number at every element.
\<close>

definition filled :: "PrimitiveType \<Rightarrow> nat list \<Rightarrow> int \<Rightarrow> Literal" where
  "filled ty ds x = Array ty ds (replicate (prod_list ds) (make_element ty x))"

text \<open>
  Modelled from the spec: "fully unknown (mask = all-true)" and "fully known, value = the
  literal, mask = all-false". The value under a true mask is garbage; it is zero here.
\<close>

definition fully_unknown :: "Node \<Rightarrow> OptionaLiteral" where
  "fully_unknown node =
     \<lparr>ol_value = filled (element_type node) (dimensions node) 0,
      ol_mask = filled PRED (dimensions node) 1\<rparr>"

definition fully_known :: "Node \<Rightarrow> Literal \<Rightarrow> OptionaLiteral" where
  "fully_known node lit = \<lparr>ol_value = lit, ol_mask = filled PRED (dimensions node) 0\<rparr>"

text \<open>
  Modelled from the spec: the bound of a runtime-determined node, "the node's declared
  static bound if one is attached ..., else ... the type's representable max/min".
\<close>

definition declared_bound :: "Node \<Rightarrow> bool \<Rightarrow> Literal" where
  "declared_bound node upper =
     filled (element_type node) (dimensions node)
       (case static_bound node of
          Some (lo, hi) \<Rightarrow> (if upper then hi else lo)
        | None \<Rightarrow> (if upper then type_max (element_type node) else type_min (element_type node)))"

text \<open>
  Modelled from the spec: "overflow while combining bounds must saturate to the type's
  bound rather than overflow silently".
\<close>

definition saturate :: "PrimitiveType \<Rightarrow> int \<Rightarrow> int" where
  "saturate ty x = max (type_min ty) (min (type_max ty) x)"

text \<open>The integers of an integral array, with its type and dimensions.\<close>

fun int_elements :: "Element list \<Rightarrow> int list option" where
  "int_elements [] = Some []"
| "int_elements (IntValue x # es) = map_option ((#) x) (int_elements es)"
| "int_elements (PredValue b # es) = None"

fun bool_elements :: "Element list \<Rightarrow> bool list option" where
  "bool_elements [] = Some []"
| "bool_elements (PredValue b # es) = map_option ((#) b) (bool_elements es)"
| "bool_elements (IntValue x # es) = None"

fun int_array :: "Literal \<Rightarrow> (PrimitiveType \<times> nat list \<times> int list) option" where
  "int_array (Array ty ds es) =
     (if ty = PRED then None else map_option (\<lambda>xs. (ty, ds, xs)) (int_elements es))"
| "int_array (Tuple ls) = None"

fun bool_array :: "Literal \<Rightarrow> (nat list \<times> bool list) option" where
  "bool_array (Array ty ds es) =
     (if ty = PRED then map_option (\<lambda>bs. (ds, bs)) (bool_elements es) else None)"
| "bool_array (Tuple ls) = None"

text \<open>
  An elementwise binary operation on two integral arrays; \<open>None\<close> on a shape or type
  mismatch.
\<close>

definition elementwise ::
  "(PrimitiveType \<Rightarrow> int \<Rightarrow> int \<Rightarrow> int) \<Rightarrow> Literal \<Rightarrow> Literal \<Rightarrow> Literal option" where
  "elementwise f a b =
     (case (int_array a, int_array b) of
        (Some (ta, da, xs), Some (tb, db, ys)) \<Rightarrow>
          (if ta = tb \<and> da = db \<and> length xs = length ys
           then Some (Array ta da (map IntValue (map2 (f ta) xs ys)))
           else None)
      | _ \<Rightarrow> None)"

text \<open>
  Modelled from the spec: "an element of the result is known only if all contributing
  operand elements at the corresponding index are known"; a mask entry is true for an
  unknown element, so the masks are combined by disjunction.
\<close>

definition combine_masks :: "Literal \<Rightarrow> Literal \<Rightarrow> Literal option" where
  "combine_masks a b =
     (case (bool_array a, bool_array b) of
        (Some (da, xs), Some (db, ys)) \<Rightarrow>
          (if da = db \<and> length xs = length ys
           then Some (Array PRED da (map PredValue (map2 (\<or>) xs ys)))
           else None)
      | _ \<Rightarrow> None)"

text \<open>
  Modelled from the spec: the transfer rule of an arithmetic opcode in Value mode. The
  value is computed in the element type, where "numerical edge cases ... must saturate
  to the type's bound rather than overflow silently"; the masks are combined. Any
  operand count but two is an arity mismatch.
\<close>

fun value_transfer :: "(int \<Rightarrow> int \<Rightarrow> int) \<Rightarrow> OptionaLiteral list \<Rightarrow> OptionaLiteral option" where
  "value_transfer f [a, b] =
     (case (elementwise (\<lambda>ty x y. saturate ty (f x y)) (ol_value a) (ol_value b),
            combine_masks (ol_mask a) (ol_mask b)) of
        (Some v, Some m) \<Rightarrow> Some \<lparr>ol_value = v, ol_mask = m\<rparr>
      | _ \<Rightarrow> None)"
| "value_transfer f ols = None"

text \<open>
  Modelled from the spec: the bound rules of the monotonic opcodes, "upper(a+b) =
  upper(a) + upper(b)", with the sum saturated to the element type.
\<close>

fun add_bounds :: "Literal list \<Rightarrow> Literal option" where
  "add_bounds [x, y] = elementwise (\<lambda>ty a b. saturate ty (a + b)) x y"
| "add_bounds ls = None"

fun max_bounds :: "Literal list \<Rightarrow> Literal option" where
  "max_bounds [x, y] = elementwise (\<lambda>ty a b. max a b) x y"
| "max_bounds ls = None"

fun min_bounds :: "Literal list \<Rightarrow> Literal option" where
  "min_bounds [x, y] = elementwise (\<lambda>ty a b. min a b) x y"
| "min_bounds ls = None"

text \<open>
  Modelled from the spec: for multiply, "enumerate all four sign-combination products
  of operand bounds and take min/max explicitly".
\<close>

definition extremal :: "bool \<Rightarrow> int \<Rightarrow> int \<Rightarrow> int \<Rightarrow> int \<Rightarrow> int" where
  "extremal upper p q r s =
     (if upper then max (max p q) (max r s) else min (min p q) (min r s))"

definition product_bound :: "PrimitiveType \<Rightarrow> bool \<Rightarrow> (int \<times> int) \<times> (int \<times> int) \<Rightarrow> int" where
  "product_bound ty upper ab =
     (case ab of ((la, ua), (lb, ub)) \<Rightarrow>
        saturate ty (extremal upper (la * lb) (la * ub) (ua * lb) (ua * ub)))"

text \<open>
  Modelled from the spec: the multiply rule on tensors. The operands' bounds arrive as
  lower(a), upper(a), lower(b), upper(b).
\<close>

fun multiply_bounds :: "bool \<Rightarrow> Literal list \<Rightarrow> Literal option" where
  "multiply_bounds upper [la, ua, lb, ub] =
     (case (int_array la, int_array ua, int_array lb, int_array ub) of
        (Some (t1, d1, xs1), Some (t2, d2, xs2), Some (t3, d3, xs3), Some (t4, d4, xs4)) \<Rightarrow>
          (if t2 = t1 \<and> t3 = t1 \<and> t4 = t1 \<and> d2 = d1 \<and> d3 = d1 \<and> d4 = d1
              \<and> length xs2 = length xs1 \<and> length xs3 = length xs1 \<and> length xs4 = length xs1
           then Some (Array t1 d1
                  (map (\<lambda>ab. IntValue (product_bound t1 upper ab))
                     (zip (zip xs1 xs2) (zip xs3 xs4))))
           else None)
      | _ \<Rightarrow> None)"
| "multiply_bounds upper ls = None"

text \<open>
  Modelled from the spec: the outcome of a walk, "a call either fully completes or
  fails". A walk returns the handles on which it invoked the external evaluation service, in
  order, and its outcome.
\<close>

type_synonym 'a walk = "int list \<times> (AnalysisError + 'a)"

text \<open>
  Modelled from the spec: "all errors propagate synchronously to the top-level caller".
  The operands are walked in order and the first error ends the walk: what comes after
  it is not run, so it invokes nothing.
\<close>

fun sequence_walks :: "'a walk list \<Rightarrow> 'a list walk" where
  "sequence_walks [] = ([], Inr [])"
| "sequence_walks ((l, Inl e) # ws) = (l, Inl e)"
| "sequence_walks ((l, Inr v) # ws) =
     (case sequence_walks ws of
        (l', Inl e) \<Rightarrow> (l @ l', Inl e)
      | (l', Inr vs) \<Rightarrow> (l @ l', Inr (v # vs)))"

text \<open>
  Modelled from the spec: a transfer rule applied to the operands' results; a rule that
  rejects them is a structural error ("shape mismatch between an opcode's declared arity
  and operand count").
\<close>

definition lift_walk :: "('a list \<Rightarrow> 'b option) \<Rightarrow> 'a walk list \<Rightarrow> 'b walk" where
  "lift_walk f ws =
     (case sequence_walks ws of
        (l, Inl e) \<Rightarrow> (l, Inl e)
      | (l, Inr vs) \<Rightarrow> (l, case f vs of None \<Rightarrow> Inl StructuralError | Some r \<Rightarrow> Inr r))"

text \<open>
  Modelled from the spec: the fallback for an opcode without a rule, "if all operands
  are fully known under Value mode, invoke the external concrete-evaluation service on
  the subgraph to get an exact result ...; otherwise mark the result fully unknown";
  and "if at any point the external evaluator is invoked and fails ..., the failure is
  surfaced as an analysis error". The service \<open>ev\<close> is a parameter.
\<close>

definition fallback ::
  "(int \<Rightarrow> Status + Literal) \<Rightarrow> int \<Rightarrow> 'a \<Rightarrow> (Literal \<Rightarrow> 'a) \<Rightarrow> OptionaLiteral walk list \<Rightarrow> 'a walk" where
  "fallback ev h unknown known ws =
     (case sequence_walks ws of
        (l, Inl e) \<Rightarrow> (l, Inl e)
      | (l, Inr ols) \<Rightarrow>
          (if list_all AllValid ols
           then (case ev h of
                   Inl s \<Rightarrow> (l @ [h], Inl (EvaluationError s))
                 | Inr lit \<Rightarrow> (l @ [h], Inr (known lit)))
           else (l, Inr unknown)))"

text \<open>
  Modelled from the spec: the walk in Value mode (section 4.2, steps 1 to 4 and 6). The
  first argument is the depth still allowed: a walk that uses it up has met a cycle and
  fails; a handle the graph does not know is a structural error too.
\<close>

fun value_walk ::
  "nat \<Rightarrow> Graph \<Rightarrow> (int \<Rightarrow> Status + Literal) \<Rightarrow> int \<Rightarrow> OptionaLiteral walk" where
  "value_walk 0 g ev h = ([], Inl StructuralError)"
| "value_walk (Suc n) g ev h =
     (case map_of g h of
        None \<Rightarrow> ([], Inl StructuralError)
      | Some node \<Rightarrow>
          (case opcode node of
             kConstant lit \<Rightarrow> ([], Inr (fully_known node lit))
           | kParameter \<Rightarrow> ([], Inr (fully_unknown node))
           | kMarkedDynamic \<Rightarrow> ([], Inr (fully_unknown node))
           | kAdd \<Rightarrow> lift_walk (value_transfer (+)) (map (value_walk n g ev) (operands node))
           | kMultiply \<Rightarrow> lift_walk (value_transfer (*)) (map (value_walk n g ev) (operands node))
           | kMaximum \<Rightarrow> lift_walk (value_transfer max) (map (value_walk n g ev) (operands node))
           | kMinimum \<Rightarrow> lift_walk (value_transfer min) (map (value_walk n g ev) (operands node))
           | kOther \<Rightarrow>
               fallback ev h (fully_unknown node) (fully_known node)
                 (map (value_walk n g ev) (operands node))))"

text \<open>
  Modelled from the spec: the walk in a bound mode, \<open>upper\<close> for UpperBound and
  \<open>\<not> upper\<close> for LowerBound.
\<close>

fun bound_walk ::
  "nat \<Rightarrow> Graph \<Rightarrow> (int \<Rightarrow> Status + Literal) \<Rightarrow> bool \<Rightarrow> int \<Rightarrow> Literal walk" where
  "bound_walk 0 g ev upper h = ([], Inl StructuralError)"
| "bound_walk (Suc n) g ev upper h =
     (case map_of g h of
        None \<Rightarrow> ([], Inl StructuralError)
      | Some node \<Rightarrow>
          (case opcode node of
             kConstant lit \<Rightarrow> ([], Inr lit)
           | kParameter \<Rightarrow> ([], Inr (declared_bound node upper))
           | kMarkedDynamic \<Rightarrow> ([], Inr (declared_bound node upper))
           | kAdd \<Rightarrow> lift_walk add_bounds (map (bound_walk n g ev upper) (operands node))
           | kMultiply \<Rightarrow>
               (case operands node of
                  [a, b] \<Rightarrow>
                    lift_walk (multiply_bounds upper)
                      [bound_walk n g ev False a, bound_walk n g ev True a,
                       bound_walk n g ev False b, bound_walk n g ev True b]
                | _ \<Rightarrow> ([], Inl StructuralError))
           | kMaximum \<Rightarrow> lift_walk max_bounds (map (bound_walk n g ev upper) (operands node))
           | kMinimum \<Rightarrow> lift_walk min_bounds (map (bound_walk n g ev upper) (operands node))
           | kOther \<Rightarrow>
               fallback ev h
                 (filled (element_type node) (dimensions node)
                    (if upper then type_max (element_type node) else type_min (element_type node)))
                 id
                 (map (value_walk n g ev) (operands node))))"

text \<open>
  Modelled from the spec: the public operations. Each call walks from scratch; the
  depth allowed is the number of nodes of the graph, which no walk of an acyclic graph
  exceeds.
\<close>

definition InferDynamism ::
  "Graph \<Rightarrow> (int \<Rightarrow> Status + Literal) \<Rightarrow> int \<Rightarrow> AnalysisError + OptionaLiteral" where
  "InferDynamism g ev node = snd (value_walk (Suc (length g)) g ev node)"

definition InferBound ::
  "Graph \<Rightarrow> (int \<Rightarrow> Status + Literal) \<Rightarrow> int \<Rightarrow> bool \<Rightarrow> AnalysisError + Literal" where
  "InferBound g ev node isUpper = snd (bound_walk (Suc (length g)) g ev isUpper node)"

text \<open>The handles on which a public operation invokes the evaluation service.\<close>

definition InferDynamism_invokes :: "Graph \<Rightarrow> (int \<Rightarrow> Status + Literal) \<Rightarrow> int \<Rightarrow> int list" where
  "InferDynamism_invokes g ev node = fst (value_walk (Suc (length g)) g ev node)"

definition InferBound_invokes ::
  "Graph \<Rightarrow> (int \<Rightarrow> Status + Literal) \<Rightarrow> int \<Rightarrow> bool \<Rightarrow> int list" where
  "InferBound_invokes g ev node isUpper = fst (bound_walk (Suc (length g)) g ev isUpper node)"

text \<open>A graph of \<open>S32\<close> scalars to run the analysis on, and a service that always fails.\<close>

definition scalar_node :: "HloOpcode \<Rightarrow> int list \<Rightarrow> (int \<times> int) option \<Rightarrow> Node" where
  "scalar_node oc ops sb =
     \<lparr>opcode = oc, element_type = S32, dimensions = [], operands = ops, static_bound = sb\<rparr>"

definition example_graph :: Graph where
  "example_graph =
     [(1, scalar_node kParameter [] (Some (- 5, 3))),
      (2, scalar_node (kConstant (Array S32 [] [IntValue 2])) [] None),
      (3, scalar_node (kConstant (Array S32 [] [IntValue (- 2)])) [] None),
      (4, scalar_node kMultiply [1, 2] None),
      (5, scalar_node kMultiply [1, 3] None),
      (6, scalar_node kParameter [] None),
      (7, scalar_node (kConstant (Array S32 [] [IntValue 2147483647])) [] None),
      (8, scalar_node (kConstant (Array S32 [] [IntValue 1])) [] None),
      (9, scalar_node kAdd [7, 8] None),
      (10, scalar_node kAdd [1, 2] None),
      (11, scalar_node kOther [2, 3] None),
      (12, scalar_node kAdd [11, 6] None)]"

definition failing_evaluator :: "int \<Rightarrow> Status + Literal" where
  "failing_evaluator h = Inl (Status ''evaluation failed'')"

text \<open>
  A walk surfaces the failures of the evaluation service: if a handle it invoked the
  service on made the service fail, the walk's outcome is that failure.
\<close>

definition surfaces :: "(int \<Rightarrow> Status + Literal) \<Rightarrow> 'a walk \<Rightarrow> bool" where
  "surfaces ev w = (\<forall>h \<in> set (fst w). \<forall>s. ev h = Inl s \<longrightarrow> snd w = Inl (EvaluationError s))"

section \<open>Properties of OptionaLiteral\<close>

lemma IsAll_mask_iff:
  "is_mask l \<Longrightarrow> IsAll l 0 = (\<forall>e \<in> set (elements l). e = PredValue False)"
proof (induction l)
  case (Array ty ds es)
  have "has_type PRED e \<Longrightarrow> element_equals PRED e 0 = (e = PredValue False)" for e
    by (cases e) auto
  with Array show ?case
    by (auto simp: list_all_iff)
next
  case (Tuple ls)
  then show ?case
    by (auto simp: list_all_iff)
qed

text \<open>
  C1. Take an index that is in bounds in the mask and in the value, with the mask a
  \<open>PRED\<close> array there and the value an array of the requested type \<open>ty\<close>. Then \<open>Get\<close>
  returns \<open>nullopt\<close> when the mask element at that index is true, and the element of the
  value literal at that index when the mask element is false.
\<close>

theorem Get_mask_value:
  assumes "subliteral (ol_mask ol) shape_index = Some (Array PRED mds ms)"
    and "linear_index mds element_index = Some k"
    and "k < length ms"
    and "ms ! k = PredValue m"
    and "subliteral (ol_value ol) shape_index = Some (Array ty vds vs)"
    and "linear_index vds element_index = Some j"
    and "j < length vs"
    and "has_type ty (vs ! j)"
  shows "Get ty ol element_index shape_index = Inr (if m then None else Some (vs ! j))"
  using assms by (simp add: Get_def Literal_Get_def)

theorem Get_mask_value_witness:
  "Get S32 \<lparr>ol_value = Array S32 [2] [IntValue 7, IntValue 9],
            ol_mask = Array PRED [2] [PredValue False, PredValue True]\<rparr> [0] [] = Inr (Some (IntValue 7))
   \<and> Get S32 \<lparr>ol_value = Array S32 [2] [IntValue 7, IntValue 9],
            ol_mask = Array PRED [2] [PredValue False, PredValue True]\<rparr> [1] [] = Inr None"
proof -
  let ?ol = "\<lparr>ol_value = Array S32 [2] [IntValue 7, IntValue 9],
              ol_mask = Array PRED [2] [PredValue False, PredValue True]\<rparr>"
  have a: "Get S32 ?ol [0] [] = Inr (if False then None else Some ([IntValue 7, IntValue 9] ! 0))"
    by (rule Get_mask_value [where mds = "[2]" and ms = "[PredValue False, PredValue True]"
          and k = 0 and vds = "[2]" and j = 0]) simp_all
  have b: "Get S32 ?ol [1] [] = Inr (if True then None else Some ([IntValue 7, IntValue 9] ! 1))"
    by (rule Get_mask_value [where mds = "[2]" and ms = "[PredValue False, PredValue True]"
          and k = 1 and vds = "[2]" and j = 1]) simp_all
  from a b show ?thesis by simp
qed

text \<open>
  C2. For a boolean mask, \<open>AllValid\<close> is true exactly when every element of the mask is
  false; so one true entry makes it false.
\<close>

theorem AllValid_iff:
  assumes "is_mask (ol_mask ol)"
  shows "(AllValid ol = (\<forall>e \<in> set (elements (ol_mask ol)). e = PredValue False))
    \<and> (PredValue True \<in> set (elements (ol_mask ol)) \<longrightarrow> \<not> AllValid ol)"
  using IsAll_mask_iff [OF assms] by (auto simp: AllValid_def)

theorem AllValid_iff_witness:
  "AllValid \<lparr>ol_value = Array S32 [2] [IntValue 7, IntValue 9],
             ol_mask = Array PRED [2] [PredValue False, PredValue False]\<rparr>
   \<and> \<not> AllValid \<lparr>ol_value = Array S32 [2] [IntValue 7, IntValue 9],
             ol_mask = Array PRED [2] [PredValue False, PredValue True]\<rparr>"
proof -
  let ?a = "\<lparr>ol_value = Array S32 [2] [IntValue 7, IntValue 9],
             ol_mask = Array PRED [2] [PredValue False, PredValue False]\<rparr>"
  let ?b = "\<lparr>ol_value = Array S32 [2] [IntValue 7, IntValue 9],
             ol_mask = Array PRED [2] [PredValue False, PredValue True]\<rparr>"
  have ma: "is_mask (ol_mask ?a)" and mb: "is_mask (ol_mask ?b)"
    by simp_all
  show ?thesis
    using AllValid_iff [OF ma] AllValid_iff [OF mb] by simp
qed

text \<open>
  C3. \<open>GetValue\<close> returns a view of the value literal exactly when \<open>AllValid\<close> holds, and
  \<open>nullopt\<close> otherwise; for a boolean mask, \<open>AllValid\<close> holds exactly when every mask
  element is false.
\<close>

theorem GetValue_iff:
  "(GetValue ol = Some (LiteralSlice (ol_value ol))) = AllValid ol
   \<and> (GetValue ol = None) = (\<not> AllValid ol)
   \<and> (is_mask (ol_mask ol) \<longrightarrow>
        (GetValue ol = Some (LiteralSlice (ol_value ol)))
          = (\<forall>e \<in> set (elements (ol_mask ol)). e = PredValue False))"
  using IsAll_mask_iff [of "ol_mask ol"] by (auto simp: GetValue_def AllValid_def)

theorem GetValue_iff_witness:
  "GetValue \<lparr>ol_value = Array S32 [2] [IntValue 7, IntValue 9],
             ol_mask = Array PRED [2] [PredValue False, PredValue False]\<rparr>
     = Some (LiteralSlice (Array S32 [2] [IntValue 7, IntValue 9]))
   \<and> GetValue \<lparr>ol_value = Array S32 [2] [IntValue 7, IntValue 9],
             ol_mask = Array PRED [2] [PredValue False, PredValue True]\<rparr> = None"
proof -
  let ?a = "\<lparr>ol_value = Array S32 [2] [IntValue 7, IntValue 9],
             ol_mask = Array PRED [2] [PredValue False, PredValue False]\<rparr>"
  let ?b = "\<lparr>ol_value = Array S32 [2] [IntValue 7, IntValue 9],
             ol_mask = Array PRED [2] [PredValue False, PredValue True]\<rparr>"
  have va: "AllValid ?a" and vb: "\<not> AllValid ?b"
    by (simp_all add: AllValid_def)
  show ?thesis
    using GetValue_iff [of ?a] GetValue_iff [of ?b] va vb by simp
qed

section \<open>Properties of the public queries\<close>

lemma AnalyzeIsDynamic_run:
  "run_call P this (AnalyzeIsDynamic_call op)
     = (case AnalyzeIsDynamic P this op of (r, this') \<Rightarrow> (map_sum id Inl r, this'))"
  by (simp add: AnalyzeIsDynamic_call_def AnalyzeIsDynamic_def)

lemma AnalyzeConstant_run:
  "run_call P this (AnalyzeConstant_call op mode)
     = (case AnalyzeConstant P this op mode of (r, this') \<Rightarrow> (map_sum id Inr r, this'))"
  by (simp add: AnalyzeConstant_call_def AnalyzeConstant_def)

text \<open>
  C4, as stated: the constant query on a node is the same computation as the dynamism
  query on it. It is not: in Value mode on the node with handle 0 the constant query
  calls \<open>AnalyzeOptionalConstant\<close> and the dynamism query calls the private
  \<open>AnalyzeIsDynamic\<close>.
\<close>

theorem AnalyzeConstant_same_counterexample:
  "AnalyzeConstant_call (XlaOp 0) kValue \<noteq> AnalyzeIsDynamic_call (XlaOp 0)"
  by (simp add: AnalyzeConstant_call_def AnalyzeIsDynamic_call_def)

text \<open>
  C4, amended. \<open>AnalyzeConstant(op, mode)\<close> returns what the private
  \<open>AnalyzeOptionalConstant(op.handle(), mode)\<close> returns, an \<open>OptionaLiteral\<close> computed in
  the mode the caller chose; \<open>AnalyzeIsDynamic(op)\<close> returns what the private
  \<open>AnalyzeIsDynamic(op.handle(), kValue)\<close> returns, a \<open>Literal\<close>. The two queries are
  different private calls for every node and mode.
\<close>

theorem AnalyzeConstant_forwards:
  "AnalyzeConstant P this op mode = AnalyzeOptionalConstant_impl P this (handle op) mode
   \<and> AnalyzeIsDynamic P this op = AnalyzeIsDynamic_impl P this (handle op) kValue
   \<and> AnalyzeConstant_call op mode = Call_AnalyzeOptionalConstant (handle op) mode
   \<and> AnalyzeConstant_call op mode \<noteq> AnalyzeIsDynamic_call op"
  by (simp add: AnalyzeConstant_def AnalyzeIsDynamic_def AnalyzeConstant_call_def
      AnalyzeIsDynamic_call_def)

text \<open>
  C5. The public dynamism query runs the private analysis in mode \<open>kValue\<close> for every
  op: its result is that of \<open>AnalyzeIsDynamic(op.handle(), kValue)\<close>, and the call it
  makes carries the mode \<open>kValue\<close>, never a bound mode.
\<close>

theorem AnalyzeIsDynamic_kValue:
  "AnalyzeIsDynamic P this op = AnalyzeIsDynamic_impl P this (handle op) kValue
   \<and> call_mode (AnalyzeIsDynamic_call op) = kValue
   \<and> call_mode (AnalyzeIsDynamic_call op) \<noteq> kUpperBound
   \<and> call_mode (AnalyzeIsDynamic_call op) \<noteq> kLowerBound"
  by (simp add: AnalyzeIsDynamic_def AnalyzeIsDynamic_call_def)






section \<open>Properties of the walks\<close>

text \<open>A walk that succeeds within a depth succeeds, with the same outcome, within a greater one.\<close>

lemma sequence_walks_Inr:
  "sequence_walks ws = (l, Inr vs) \<Longrightarrow> w \<in> set ws \<Longrightarrow> \<exists>v. snd w = Inr v"
proof (induction ws arbitrary: l vs)
  case Nil
  then show ?case by simp
next
  case (Cons x ws)
  obtain lx rx where x: "x = (lx, rx)" by (cases x)
  show ?case
  proof (cases rx)
    case (Inl e)
    with Cons.prems x show ?thesis by simp
  next
    case (Inr v)
    obtain l' r' where s: "sequence_walks ws = (l', r')" by (cases "sequence_walks ws")
    with Cons.prems x Inr obtain vs' where "r' = Inr vs'"
      by (cases r') auto
    with Cons.IH [of l' vs'] s Cons.prems(2) x Inr show ?thesis by auto
  qed
qed

lemma lift_walk_Inr:
  "snd (lift_walk f ws) = Inr r \<Longrightarrow> w \<in> set ws \<Longrightarrow> \<exists>v. snd w = Inr v"
proof -
  assume a: "snd (lift_walk f ws) = Inr r" and w: "w \<in> set ws"
  obtain l r' where s: "sequence_walks ws = (l, r')" by (cases "sequence_walks ws")
  with a obtain vs where "r' = Inr vs"
    by (cases r') (auto simp: lift_walk_def)
  with s w show ?thesis by (auto dest: sequence_walks_Inr)
qed

lemma fallback_Inr:
  "snd (fallback ev h u k ws) = Inr r \<Longrightarrow> w \<in> set ws \<Longrightarrow> \<exists>v. snd w = Inr v"
proof -
  assume a: "snd (fallback ev h u k ws) = Inr r" and w: "w \<in> set ws"
  obtain l r' where s: "sequence_walks ws = (l, r')" by (cases "sequence_walks ws")
  with a obtain vs where "r' = Inr vs"
    by (cases r') (auto simp: fallback_def)
  with s w show ?thesis by (auto dest: sequence_walks_Inr)
qed

lemma lift_walk_map_Inr:
  "snd (lift_walk f (map w xs)) = Inr r \<Longrightarrow> x \<in> set xs \<Longrightarrow> \<exists>v. snd (w x) = Inr v"
  by (rule lift_walk_Inr [where w = "w x"]) auto

lemma fallback_map_Inr:
  "snd (fallback ev h u k (map w xs)) = Inr r \<Longrightarrow> x \<in> set xs \<Longrightarrow> \<exists>v. snd (w x) = Inr v"
  by (rule fallback_Inr [where w = "w x"]) auto

lemma value_walk_mono:
  "snd (value_walk n g ev h) = Inr v \<Longrightarrow> value_walk (Suc n) g ev h = value_walk n g ev h"
proof (induction n arbitrary: h v)
  case 0
  then show ?case by simp
next
  case (Suc n)
  show ?case
  proof (cases "map_of g h")
    case None
    then show ?thesis by simp
  next
    case (Some node)
    have ops: "map (value_walk (Suc n) g ev) (operands node) = map (value_walk n g ev) (operands node)"
      if "\<And>x. x \<in> set (operands node) \<Longrightarrow> \<exists>v. snd (value_walk n g ev x) = Inr v"
    proof (rule map_cong [OF refl])
      fix x assume "x \<in> set (operands node)"
      with that obtain v where "snd (value_walk n g ev x) = Inr v" by blast
      then show "value_walk (Suc n) g ev x = value_walk n g ev x" by (rule Suc.IH)
    qed
    show ?thesis
    proof (cases "opcode node")
      case kAdd
      with Some Suc.prems have "\<And>x. x \<in> set (operands node) \<Longrightarrow> \<exists>v. snd (value_walk n g ev x) = Inr v"
        by (auto dest: lift_walk_map_Inr)
      from ops [OF this] Some kAdd show ?thesis by (simp del: map_eq_conv)
    next
      case kMultiply
      with Some Suc.prems have "\<And>x. x \<in> set (operands node) \<Longrightarrow> \<exists>v. snd (value_walk n g ev x) = Inr v"
        by (auto dest: lift_walk_map_Inr)
      from ops [OF this] Some kMultiply show ?thesis by (simp del: map_eq_conv)
    next
      case kMaximum
      with Some Suc.prems have "\<And>x. x \<in> set (operands node) \<Longrightarrow> \<exists>v. snd (value_walk n g ev x) = Inr v"
        by (auto dest: lift_walk_map_Inr)
      from ops [OF this] Some kMaximum show ?thesis by (simp del: map_eq_conv)
    next
      case kMinimum
      with Some Suc.prems have "\<And>x. x \<in> set (operands node) \<Longrightarrow> \<exists>v. snd (value_walk n g ev x) = Inr v"
        by (auto dest: lift_walk_map_Inr)
      from ops [OF this] Some kMinimum show ?thesis by (simp del: map_eq_conv)
    next
      case kOther
      with Some Suc.prems have "\<And>x. x \<in> set (operands node) \<Longrightarrow> \<exists>v. snd (value_walk n g ev x) = Inr v"
        by (auto dest: fallback_map_Inr)
      from ops [OF this] Some kOther show ?thesis by (simp del: map_eq_conv)
    qed (use Some in simp_all)
  qed
qed

lemma bound_walk_mono:
  "snd (bound_walk n g ev up h) = Inr v \<Longrightarrow> bound_walk (Suc n) g ev up h = bound_walk n g ev up h"
proof (induction n arbitrary: h v up)
  case 0
  then show ?case by simp
next
  case (Suc n)
  show ?case
  proof (cases "map_of g h")
    case None
    then show ?thesis by simp
  next
    case (Some node)
    have ops: "map (bound_walk (Suc n) g ev up) (operands node) = map (bound_walk n g ev up) (operands node)"
      if "\<And>x. x \<in> set (operands node) \<Longrightarrow> \<exists>v. snd (bound_walk n g ev up x) = Inr v"
    proof (rule map_cong [OF refl])
      fix x assume "x \<in> set (operands node)"
      with that obtain v where "snd (bound_walk n g ev up x) = Inr v" by blast
      then show "bound_walk (Suc n) g ev up x = bound_walk n g ev up x" by (rule Suc.IH)
    qed
    show ?thesis
    proof (cases "opcode node")
      case kAdd
      with Some Suc.prems have "\<And>x. x \<in> set (operands node) \<Longrightarrow> \<exists>v. snd (bound_walk n g ev up x) = Inr v"
        by (auto dest: lift_walk_map_Inr)
      from ops [OF this] Some kAdd show ?thesis by (simp del: map_eq_conv)
    next
      case kMaximum
      with Some Suc.prems have "\<And>x. x \<in> set (operands node) \<Longrightarrow> \<exists>v. snd (bound_walk n g ev up x) = Inr v"
        by (auto dest: lift_walk_map_Inr)
      from ops [OF this] Some kMaximum show ?thesis by (simp del: map_eq_conv)
    next
      case kMinimum
      with Some Suc.prems have "\<And>x. x \<in> set (operands node) \<Longrightarrow> \<exists>v. snd (bound_walk n g ev up x) = Inr v"
        by (auto dest: lift_walk_map_Inr)
      from ops [OF this] Some kMinimum show ?thesis by (simp del: map_eq_conv)
    next
      case kMultiply
      show ?thesis
      proof (cases "\<exists>a b. operands node = [a, b]")
        case True
        then obtain a b where ab: "operands node = [a, b]" by blast
        let ?ws = "[bound_walk n g ev False a, bound_walk n g ev True a,
                    bound_walk n g ev False b, bound_walk n g ev True b]"
        from Some kMultiply ab Suc.prems
        have ok: "snd (lift_walk (multiply_bounds up) ?ws) = Inr v" by simp
        have each: "\<exists>v. snd w = Inr v" if "w \<in> set ?ws" for w
          using lift_walk_Inr [OF ok that] .
        have "bound_walk (Suc n) g ev False a = bound_walk n g ev False a"
          and "bound_walk (Suc n) g ev True a = bound_walk n g ev True a"
          and "bound_walk (Suc n) g ev False b = bound_walk n g ev False b"
          and "bound_walk (Suc n) g ev True b = bound_walk n g ev True b"
          using each Suc.IH by (simp_all del: bound_walk.simps) blast+
        with Some kMultiply ab show ?thesis by (simp del: map_eq_conv)
      next
        case False
        with Some kMultiply Suc.prems show ?thesis
          by (auto split: list.splits)
      qed
    next
      case kOther
      with Some Suc.prems have all: "\<And>x. x \<in> set (operands node) \<Longrightarrow> \<exists>v. snd (value_walk n g ev x) = Inr v"
        by (auto dest: fallback_map_Inr)
      have "map (value_walk (Suc n) g ev) (operands node) = map (value_walk n g ev) (operands node)"
      proof (rule map_cong [OF refl])
        fix x assume "x \<in> set (operands node)"
        with all obtain v where "snd (value_walk n g ev x) = Inr v" by blast
        then show "value_walk (Suc n) g ev x = value_walk n g ev x" by (rule value_walk_mono)
      qed
      with Some kOther show ?thesis by (simp del: map_eq_conv)
    qed (use Some in simp_all)
  qed
qed

lemma surfaces_Inr: "surfaces ev (l, Inr v) \<Longrightarrow> h \<in> set l \<Longrightarrow> ev h \<noteq> Inl s"
  by (auto simp: surfaces_def)

lemma sequence_surfaces:
  "(\<And>w. w \<in> set ws \<Longrightarrow> surfaces ev w) \<Longrightarrow> surfaces ev (sequence_walks ws)"
proof (induction ws)
  case Nil
  then show ?case by (simp add: surfaces_def)
next
  case (Cons x ws)
  obtain lx rx where x: "x = (lx, rx)" by (cases x)
  have sx: "surfaces ev (lx, rx)" using Cons.prems x by simp
  have rest: "surfaces ev (sequence_walks ws)" using Cons by simp
  show ?case
  proof (cases rx)
    case (Inl e)
    with sx x show ?thesis by (simp add: surfaces_def)
  next
    case (Inr v)
    obtain l' r' where s: "sequence_walks ws = (l', r')" by (cases "sequence_walks ws")
    from sx Inr have nofail: "\<And>h s. h \<in> set lx \<Longrightarrow> ev h \<noteq> Inl s"
      by (auto simp: surfaces_def)
    show ?thesis
    proof (cases r')
      case (Inl e)
      with rest s nofail x Inr show ?thesis by (auto simp: surfaces_def)
    next
      case r: (Inr vs)
      with rest s nofail x Inr show ?thesis by (auto simp: surfaces_def)
    qed
  qed
qed

lemma lift_surfaces:
  assumes "\<And>w. w \<in> set ws \<Longrightarrow> surfaces ev w"
  shows "surfaces ev (lift_walk f ws)"
proof -
  obtain l r where s: "sequence_walks ws = (l, r)" by (cases "sequence_walks ws")
  from sequence_surfaces [of ws ev] assms s have "surfaces ev (l, r)" by simp
  with s show ?thesis
    by (cases r) (auto simp: lift_walk_def surfaces_def)
qed

lemma fallback_surfaces:
  assumes "\<And>w. w \<in> set ws \<Longrightarrow> surfaces ev w"
  shows "surfaces ev (fallback ev h u k ws)"
proof -
  obtain l r where s: "sequence_walks ws = (l, r)" by (cases "sequence_walks ws")
  from sequence_surfaces [of ws ev] assms s have "surfaces ev (l, r)" by simp
  with s show ?thesis
    by (cases r) (auto simp: fallback_def surfaces_def split: sum.splits)
qed

lemma lift_map_surfaces:
  "(\<And>x. surfaces ev (w x)) \<Longrightarrow> surfaces ev (lift_walk f (map w xs))"
  by (rule lift_surfaces) auto

lemma fallback_map_surfaces:
  "(\<And>x. surfaces ev (w x)) \<Longrightarrow> surfaces ev (fallback ev h u k (map w xs))"
  by (rule fallback_surfaces) auto

lemma surfaces_empty: "surfaces ev ([], r)"
  by (simp add: surfaces_def)

lemma value_walk_surfaces: "surfaces ev (value_walk n g ev h)"
proof (induction n arbitrary: h)
  case 0
  show ?case by (simp add: surfaces_empty)
next
  case (Suc n)
  show ?case
  proof (cases "map_of g h")
    case None
    then show ?thesis by (simp add: surfaces_empty)
  next
    case (Some node)
    then show ?thesis
      by (cases "opcode node")
        (simp_all add: surfaces_empty lift_map_surfaces fallback_map_surfaces Suc)
  qed
qed

lemma bound_walk_surfaces: "surfaces ev (bound_walk n g ev up h)"
proof (induction n arbitrary: h up)
  case 0
  show ?case by (simp add: surfaces_empty)
next
  case (Suc n)
  show ?case
  proof (cases "map_of g h")
    case None
    then show ?thesis by (simp add: surfaces_empty)
  next
    case (Some node)
    show ?thesis
    proof (cases "opcode node")
      case kMultiply
      show ?thesis
      proof (cases "\<exists>a b. operands node = [a, b]")
        case True
        then obtain a b where ab: "operands node = [a, b]" by blast
        have "surfaces ev (lift_walk (multiply_bounds up)
                [bound_walk n g ev False a, bound_walk n g ev True a,
                 bound_walk n g ev False b, bound_walk n g ev True b])"
          by (rule lift_surfaces) (use Suc in auto)
        with Some kMultiply ab show ?thesis by simp
      next
        case False
        with Some kMultiply show ?thesis
          by (auto simp: surfaces_empty split: list.splits)
      qed
    qed (use Some in \<open>simp_all add: surfaces_empty lift_map_surfaces fallback_map_surfaces
           Suc value_walk_surfaces\<close>)
  qed
qed

lemma value_walk_mono_le:
  "k \<le> k' \<Longrightarrow> snd (value_walk k g ev h) = Inr v \<Longrightarrow> value_walk k' g ev h = value_walk k g ev h"
proof (induction k' rule: nat_induct_at_least [of k])
  case base
  show ?case by simp
next
  case (Suc n)
  then show ?case using value_walk_mono [of n g ev h v] by simp
qed

lemma bound_walk_mono_le:
  "k \<le> k' \<Longrightarrow> snd (bound_walk k g ev up h) = Inr v \<Longrightarrow> bound_walk k' g ev up h = bound_walk k g ev up h"
proof (induction k' rule: nat_induct_at_least [of k])
  case base
  show ?case by simp
next
  case (Suc n)
  then show ?case using bound_walk_mono [of n g ev up h v] by simp
qed


section \<open>Properties of the analysis\<close>

text \<open>
  C6. A node flagged as runtime-determined (a parameter or a node marked dynamic) with
  no static bound attached: \<open>InferDynamism\<close> returns a mask that is true at every
  element, \<open>InferBound\<close> with \<open>isUpper\<close> returns the maximum of the element type at
  every element, and without \<open>isUpper\<close> the minimum.
\<close>

theorem dynamic_node_unknown:
  assumes "map_of g node = Some n"
    and "opcode n = kParameter \<or> opcode n = kMarkedDynamic"
    and "static_bound n = None"
  shows "(\<exists>ol. InferDynamism g ev node = Inr ol
            \<and> ol_mask ol = Array PRED (dimensions n)
                 (replicate (prod_list (dimensions n)) (PredValue True)))
    \<and> InferBound g ev node True
        = Inr (Array (element_type n) (dimensions n)
            (replicate (prod_list (dimensions n))
               (make_element (element_type n) (type_max (element_type n)))))
    \<and> InferBound g ev node False
        = Inr (Array (element_type n) (dimensions n)
            (replicate (prod_list (dimensions n))
               (make_element (element_type n) (type_min (element_type n)))))"
  using assms
  by (auto simp: InferDynamism_def InferBound_def fully_unknown_def declared_bound_def
      filled_def make_element_def)

theorem dynamic_node_unknown_witness:
  "(\<exists>ol. InferDynamism example_graph failing_evaluator 6 = Inr ol
          \<and> ol_mask ol = Array PRED [] [PredValue True])
   \<and> InferBound example_graph failing_evaluator 6 True = Inr (Array S32 [] [IntValue 2147483647])
   \<and> InferBound example_graph failing_evaluator 6 False = Inr (Array S32 [] [IntValue (- 2147483648)])"
proof -
  let ?n = "scalar_node kParameter [] None"
  have n: "map_of example_graph 6 = Some ?n"
    by (simp add: example_graph_def)
  have oc: "opcode ?n = kParameter \<or> opcode ?n = kMarkedDynamic"
    and sb: "static_bound ?n = None"
    by (simp_all add: scalar_node_def)
  show ?thesis
    using dynamic_node_unknown [OF n oc sb, of failing_evaluator]
    by (simp add: scalar_node_def make_element_def)
qed

lemma int_elements_map: "int_elements (map IntValue xs) = Some xs"
  by (induction xs) simp_all

lemma int_array_ints: "ty \<noteq> PRED \<Longrightarrow> int_array (Array ty ds (map IntValue xs)) = Some (ty, ds, xs)"
  by (simp add: int_elements_map)


lemma lift_walk_four:
  "snd wa = Inr x \<Longrightarrow> snd wb = Inr y \<Longrightarrow> snd wc = Inr z \<Longrightarrow> snd wd = Inr u \<Longrightarrow>
   snd (lift_walk f [wa, wb, wc, wd])
     = (case f [x, y, z, u] of None \<Rightarrow> Inl StructuralError | Some r \<Rightarrow> Inr r)"
  by (cases wa; cases wb; cases wc; cases wd) (simp add: lift_walk_def)





text \<open>
  Where the integer sum leaves the element type, value and bounds agree on the type's
  bound: node 9 adds 2147483647 and 1 in \<open>S32\<close>.
\<close>

lemma add_saturates_at_type_max:
  "InferDynamism example_graph failing_evaluator 9
     = Inr \<lparr>ol_value = Array S32 [] [IntValue 2147483647],
            ol_mask = Array PRED [] [PredValue False]\<rparr>
   \<and> InferBound example_graph failing_evaluator 9 True = Inr (Array S32 [] [IntValue 2147483647])
   \<and> InferBound example_graph failing_evaluator 9 False = Inr (Array S32 [] [IntValue 2147483647])"
  by (simp add: InferDynamism_def InferBound_def example_graph_def scalar_node_def lift_walk_def
      elementwise_def combine_masks_def saturate_def fully_known_def filled_def make_element_def)

lemma multiply_node_bound:
  assumes node: "map_of g h = Some node" "opcode node = kMultiply" "operands node = [a, b]"
    and la: "snd (bound_walk k g ev False a) = Inr (Array ty ds (map IntValue xs1))"
    and ua: "snd (bound_walk k g ev True a) = Inr (Array ty ds (map IntValue xs2))"
    and lb: "snd (bound_walk k g ev False b) = Inr (Array ty ds (map IntValue xs3))"
    and ub: "snd (bound_walk k g ev True b) = Inr (Array ty ds (map IntValue xs4))"
    and len: "length xs2 = length xs1" "length xs3 = length xs1" "length xs4 = length xs1"
    and ty: "ty \<noteq> PRED"
  shows "snd (bound_walk (Suc k) g ev up h)
     = Inr (Array ty ds (map (\<lambda>ab. IntValue (product_bound ty up ab))
              (zip (zip xs1 xs2) (zip xs3 xs4))))"
  using node lift_walk_four [OF la ua lb ub, of "multiply_bounds up"] len ty
  by (simp add: int_array_ints del: int_array.simps)

lemma constant_bound_walk:
  "map_of g b = Some nb \<Longrightarrow> opcode nb = kConstant lit \<Longrightarrow>
   bound_walk (Suc k) g ev up b = ([], Inr lit)"
  by simp

lemma multiply_replicate_bound:
  assumes node: "map_of g h = Some node" "opcode node = kMultiply" "operands node = [a, b]"
    and k: "k \<le> length g"
    and la: "snd (bound_walk k g ev False a) = Inr (Array ty ds (replicate m (IntValue lo)))"
    and ua: "snd (bound_walk k g ev True a) = Inr (Array ty ds (replicate m (IntValue hi)))"
    and b: "map_of g b = Some nb" "opcode nb = kConstant (Array ty ds (replicate m (IntValue c)))"
    and ty: "ty \<noteq> PRED"
  shows "InferBound g ev h up
     = Inr (Array ty ds (replicate m (IntValue (product_bound ty up ((lo, hi), (c, c))))))"
proof -
  from la obtain j where j: "k = Suc j" by (cases k) simp_all
  have r: "replicate m (IntValue v) = map IntValue (replicate m v)" for v
    by simp
  have cb: "snd (bound_walk k g ev u b) = Inr (Array ty ds (map IntValue (replicate m c)))" for u
    using constant_bound_walk [OF b] j by simp
  have "snd (bound_walk (Suc k) g ev up h)
     = Inr (Array ty ds (map (\<lambda>ab. IntValue (product_bound ty up ab))
              (zip (zip (replicate m lo) (replicate m hi)) (zip (replicate m c) (replicate m c)))))"
    by (rule multiply_node_bound [OF node la [unfolded r] ua [unfolded r] cb cb _ _ _ ty]) simp_all
  then have w: "snd (bound_walk (Suc k) g ev up h)
     = Inr (Array ty ds (replicate m (IntValue (product_bound ty up ((lo, hi), (c, c))))))"
    by (simp add: zip_replicate)
  have "Suc k \<le> Suc (length g)" using k by simp
  from bound_walk_mono_le [OF this w] w show ?thesis
    by (simp add: InferBound_def)
qed

text \<open>
  C8. For a multiply node \<open>a * b\<close> where \<open>a\<close> has the inferred bounds [-5, 3] and \<open>b\<close> is
  a constant \<open>c\<close>, in a signed element type that holds -10 and 10: if \<open>c\<close> is 2 the upper
  bound of the product is 6 and the lower bound -10; if \<open>c\<close> is -2 the upper bound is 10
  and the lower bound -6.
\<close>

theorem multiply_bound_sign_flip:
  assumes "map_of g h = Some node" and "opcode node = kMultiply" and "operands node = [a, b]"
    and "k \<le> length g"
    and "snd (bound_walk k g ev False a) = Inr (Array ty ds (replicate m (IntValue (- 5))))"
    and "snd (bound_walk k g ev True a) = Inr (Array ty ds (replicate m (IntValue 3)))"
    and "map_of g b = Some nb"
    and "opcode nb = kConstant (Array ty ds (replicate m (IntValue c)))"
    and "ty \<noteq> PRED" and "type_min ty \<le> - 10" and "10 \<le> type_max ty"
  shows "(c = 2 \<longrightarrow>
            InferBound g ev h True = Inr (Array ty ds (replicate m (IntValue 6)))
          \<and> InferBound g ev h False = Inr (Array ty ds (replicate m (IntValue (- 10)))))
    \<and> (c = - 2 \<longrightarrow>
            InferBound g ev h True = Inr (Array ty ds (replicate m (IntValue 10)))
          \<and> InferBound g ev h False = Inr (Array ty ds (replicate m (IntValue (- 6)))))"
proof -
  have b: "InferBound g ev h up
     = Inr (Array ty ds (replicate m (IntValue (product_bound ty up ((- 5, 3), (c, c))))))" for up
    using assms(1-9) by (rule multiply_replicate_bound)
  have "product_bound ty True ((- 5, 3), (2, 2)) = 6"
    and "product_bound ty False ((- 5, 3), (2, 2)) = - 10"
    and "product_bound ty True ((- 5, 3), (- 2, - 2)) = 10"
    and "product_bound ty False ((- 5, 3), (- 2, - 2)) = - 6"
    using assms(10,11) by (simp_all add: product_bound_def extremal_def saturate_def)
  with b show ?thesis by simp
qed

theorem multiply_bound_sign_flip_witness:
  "InferBound example_graph failing_evaluator 4 True = Inr (Array S32 [] [IntValue 6])
   \<and> InferBound example_graph failing_evaluator 4 False = Inr (Array S32 [] [IntValue (- 10)])
   \<and> InferBound example_graph failing_evaluator 5 True = Inr (Array S32 [] [IntValue 10])
   \<and> InferBound example_graph failing_evaluator 5 False = Inr (Array S32 [] [IntValue (- 6)])"
proof -
  let ?n4 = "scalar_node kMultiply [1, 2] None"
  let ?n5 = "scalar_node kMultiply [1, 3] None"
  let ?c2 = "scalar_node (kConstant (Array S32 [] [IntValue 2])) [] None"
  let ?c3 = "scalar_node (kConstant (Array S32 [] [IntValue (- 2)])) [] None"
  have n4: "map_of example_graph 4 = Some ?n4" and n5: "map_of example_graph 5 = Some ?n5"
    and c2: "map_of example_graph 2 = Some ?c2" and c3: "map_of example_graph 3 = Some ?c3"
    by (simp_all add: example_graph_def)
  have oc4: "opcode ?n4 = kMultiply" and ops4: "operands ?n4 = [1, 2]"
    and oc5: "opcode ?n5 = kMultiply" and ops5: "operands ?n5 = [1, 3]"
    and occ2: "opcode ?c2 = kConstant (Array S32 [] (replicate (Suc 0) (IntValue 2)))"
    and occ3: "opcode ?c3 = kConstant (Array S32 [] (replicate (Suc 0) (IntValue (- 2))))"
    by (simp_all add: scalar_node_def)
  have k: "Suc 0 \<le> length example_graph"
    by (simp add: example_graph_def)
  have lo: "snd (bound_walk (Suc 0) example_graph failing_evaluator False 1)
             = Inr (Array S32 [] (replicate (Suc 0) (IntValue (- 5))))"
    and hi: "snd (bound_walk (Suc 0) example_graph failing_evaluator True 1)
             = Inr (Array S32 [] (replicate (Suc 0) (IntValue 3)))"
    by (simp_all add: example_graph_def scalar_node_def declared_bound_def filled_def
        make_element_def)
  have ty: "S32 \<noteq> PRED" and mn: "type_min S32 \<le> - 10" and mx: "10 \<le> type_max S32"
    by simp_all
  show ?thesis
    using multiply_bound_sign_flip [OF n4 oc4 ops4 k lo hi c2 occ2 ty mn mx]
      multiply_bound_sign_flip [OF n5 oc5 ops5 k lo hi c3 occ3 ty mn mx]
    by simp
qed

text \<open>
  C9. If an analysis invoked the evaluation service on a handle and the service failed
  there, the analysis returns that failure as an error: never a partial or a fully
  unknown result.
\<close>

theorem evaluator_failure_surfaces:
  "(h \<in> set (InferDynamism_invokes g ev node) \<and> ev h = Inl s
      \<longrightarrow> InferDynamism g ev node = Inl (EvaluationError s))
   \<and> (h \<in> set (InferBound_invokes g ev node isUpper) \<and> ev h = Inl s
      \<longrightarrow> InferBound g ev node isUpper = Inl (EvaluationError s))"
  using value_walk_surfaces [of ev "Suc (length g)" g node]
    bound_walk_surfaces [of ev "Suc (length g)" g isUpper node]
  unfolding surfaces_def InferDynamism_invokes_def InferBound_invokes_def
    InferDynamism_def InferBound_def
  by blast

theorem evaluator_failure_surfaces_witness:
  "11 \<in> set (InferDynamism_invokes example_graph failing_evaluator 12)
   \<and> InferDynamism example_graph failing_evaluator 12
       = Inl (EvaluationError (Status ''evaluation failed''))
   \<and> 11 \<in> set (InferBound_invokes example_graph failing_evaluator 12 True)
   \<and> InferBound example_graph failing_evaluator 12 True
       = Inl (EvaluationError (Status ''evaluation failed''))"
proof -
  have d: "InferDynamism_invokes example_graph failing_evaluator 12 = [11]"
    by (simp add: InferDynamism_invokes_def example_graph_def scalar_node_def lift_walk_def
        fallback_def failing_evaluator_def AllValid_def fully_known_def filled_def
        make_element_def)
  have b: "InferBound_invokes example_graph failing_evaluator 12 True = [11]"
    by (simp add: InferBound_invokes_def example_graph_def scalar_node_def lift_walk_def
        fallback_def failing_evaluator_def AllValid_def fully_known_def filled_def
        make_element_def)
  have f: "failing_evaluator 11 = Inl (Status ''evaluation failed'')"
    by (simp add: failing_evaluator_def)
  show ?thesis
    using evaluator_failure_surfaces
      [of 11 example_graph failing_evaluator 12 "Status ''evaluation failed''" True] d b f
    by simp
qed

end
